theory Spec2Isabelle
  imports Main "HOL-Library.Word" "HOL-Library.Monad_Syntax"
begin

unbundle bit_operations_syntax

section \<open>Machine integers of the Go source\<close>

text \<open>
  \<^verbatim>\<open>uint64\<close> and \<^verbatim>\<open>int64\<close> are 64-bit words; \<open>+\<close> on words wraps modulo \<open>2 ^ 64\<close>,
  \<open>unat\<close>/\<open>uint\<close> read a word as unsigned and \<open>sint\<close> as two's complement.
  Go's \<^verbatim>\<open>int\<close> is 32 or 64 bits wide depending on the platform, so it is a word of
  any width \<open>'w\<close>.
\<close>

type_synonym uint64 = "64 word"
type_synonym int64 = "64 word"

text \<open>
  The conversion \<^verbatim>\<open>uint64(n)\<close> of a signed integer: the value is sign-extended and then
  truncated to 64 bits. It is used at \<^verbatim>\<open>int\<close> (in \<^verbatim>\<open>Add\<close>) and at \<^verbatim>\<open>int64\<close>
  (in \<^verbatim>\<open>AddInt64\<close>).
\<close>

definition to_uint64 :: "'w::len word \<Rightarrow> uint64" where
  "to_uint64 k = scast k"

text \<open>The conversion \<^verbatim>\<open>int64(n)\<close> of an \<^verbatim>\<open>int\<close>: sign extension.\<close>

definition to_int64 :: "'w::len word \<Rightarrow> int64" where
  "to_int64 k = scast k"

section \<open>counter.go: the integer counter\<close>

text \<open>
  \<^verbatim>\<open>type Counter struct { n uint64; lastWriteTime int64 }\<close>.
  The fields carry the receiver's name, since \<^verbatim>\<open>FloatCounter\<close> has fields of the same
  names.
\<close>

record Counter =
  c_n :: uint64
  c_lastWriteTime :: int64

text \<open>
  The primitives of \<^verbatim>\<open>sync/atomic\<close> that the methods call, each on the field it is
  applied to. Each is one indivisible access of its field.
\<close>

definition AddUint64_n :: "uint64 \<Rightarrow> Counter \<Rightarrow> Counter" where
  "AddUint64_n delta c = c\<lparr>c_n := c_n c + delta\<rparr>"

definition StoreUint64_n :: "uint64 \<Rightarrow> Counter \<Rightarrow> Counter" where
  "StoreUint64_n v c = c\<lparr>c_n := v\<rparr>"

definition LoadUint64_n :: "Counter \<Rightarrow> uint64" where
  "LoadUint64_n c = c_n c"

definition StoreInt64_lastWriteTime :: "int64 \<Rightarrow> Counter \<Rightarrow> Counter" where
  "StoreInt64_lastWriteTime t c = c\<lparr>c_lastWriteTime := t\<rparr>"

definition LoadInt64_lastWriteTime :: "Counter \<Rightarrow> int64" where
  "LoadInt64_lastWriteTime c = c_lastWriteTime c"

text \<open>
  The methods. A method that reads the clock takes the value of
  \<^verbatim>\<open>time.Now().Unix()\<close> as its argument \<open>now\<close>; a method that returns a value returns
  it together with the state it leaves.
\<close>

definition Counter_Inc :: "Counter \<Rightarrow> Counter" where
  "Counter_Inc c = AddUint64_n 1 c"

definition Counter_Dec :: "int64 \<Rightarrow> Counter \<Rightarrow> Counter" where
  "Counter_Dec now c = StoreInt64_lastWriteTime now (AddUint64_n (NOT 0) c)"

definition Counter_Add :: "'w::len word \<Rightarrow> int64 \<Rightarrow> Counter \<Rightarrow> Counter" where
  "Counter_Add k now c = StoreInt64_lastWriteTime now (AddUint64_n (to_uint64 k) c)"

definition Counter_AddInt64 :: "int64 \<Rightarrow> int64 \<Rightarrow> Counter \<Rightarrow> Counter" where
  "Counter_AddInt64 k now c = StoreInt64_lastWriteTime now (AddUint64_n (to_uint64 k) c)"

definition Counter_Get :: "Counter \<Rightarrow> uint64 \<times> Counter" where
  "Counter_Get c = (LoadUint64_n c, c)"

definition Counter_Set :: "uint64 \<Rightarrow> int64 \<Rightarrow> Counter \<Rightarrow> Counter" where
  "Counter_Set v now c = StoreInt64_lastWriteTime now (StoreUint64_n v c)"

definition Counter_getLastWriteTime :: "Counter \<Rightarrow> int64 \<times> Counter" where
  "Counter_getLastWriteTime c = (LoadInt64_lastWriteTime c, c)"

lemmas atomic_defs =
  AddUint64_n_def StoreUint64_n_def LoadUint64_n_def
  StoreInt64_lastWriteTime_def LoadInt64_lastWriteTime_def

lemmas Counter_defs =
  Counter_Inc_def Counter_Dec_def Counter_Add_def Counter_AddInt64_def
  Counter_Get_def Counter_Set_def Counter_getLastWriteTime_def

subsection \<open>Text output\<close>

text \<open>
  The \<^verbatim>\<open>io.Writer\<close> is the sequence of bytes written to it so far; a write appends.
  \<^verbatim>\<open>marshalTo\<close> drops the error \<^verbatim>\<open>Fprintf\<close> returns, so the model has none.

  The verb \<^verbatim>\<open>%d\<close> on a \<^verbatim>\<open>uint64\<close> prints the unsigned value in base 10, most
  significant digit first, with no sign and no padding; \<^verbatim>\<open>fmt\<close> takes each digit
  from its digit table.
\<close>

type_synonym Writer = string

definition ldigits :: string where
  "ldigits = ''0123456789''"

fun fmt_decimal :: "nat \<Rightarrow> string" where
  "fmt_decimal u =
     (if u < 10 then [ldigits ! u] else fmt_decimal (u div 10) @ [ldigits ! (u mod 10)])"

declare fmt_decimal.simps [simp del]

definition fmt_d :: "uint64 \<Rightarrow> string" where
  "fmt_d v = fmt_decimal (unat v)"

text \<open>\<^verbatim>\<open>fmt.Fprintf(w, "%s %d\n", prefix, v)\<close>\<close>

definition Fprintf_s_d :: "Writer \<Rightarrow> string \<Rightarrow> uint64 \<Rightarrow> Writer" where
  "Fprintf_s_d w prefix v = w @ prefix @ '' '' @ fmt_d v @ ''\<newline>''"

definition Counter_marshalTo :: "string \<Rightarrow> Writer \<Rightarrow> Counter \<Rightarrow> Writer \<times> Counter" where
  "Counter_marshalTo prefix w c =
     (let (v, c') = Counter_Get c in (Fprintf_s_d w prefix v, c'))"

definition Counter_metricType :: "Counter \<Rightarrow> string" where
  "Counter_metricType c = ''counter''"

subsection \<open>Sequences of calls from one thread\<close>

text \<open>
  The calls a client can make on a counter, with their arguments; \<open>'i\<close> is the type
  of \<^verbatim>\<open>int\<close>, a word.
\<close>

datatype 'i Counter_call =
    Call_Inc
  | Call_Dec
  | Call_Add 'i
  | Call_AddInt64 int64
  | Call_Get
  | Call_Set uint64

text \<open>The state a call leaves, when the clock reads \<open>now\<close> during the call.\<close>

fun Counter_do :: "'w::len word Counter_call \<Rightarrow> int64 \<Rightarrow> Counter \<Rightarrow> Counter" where
  "Counter_do Call_Inc now c = Counter_Inc c"
| "Counter_do Call_Dec now c = Counter_Dec now c"
| "Counter_do (Call_Add k) now c = Counter_Add k now c"
| "Counter_do (Call_AddInt64 k) now c = Counter_AddInt64 k now c"
| "Counter_do Call_Get now c = snd (Counter_Get c)"
| "Counter_do (Call_Set v) now c = Counter_Set v now c"

text \<open>
  One thread makes the calls in order, each paired with the clock reading at the time
  of the call, and asks \<^verbatim>\<open>getLastWriteTime\<close> after each. The result is the list of
  the answers.
\<close>

fun Counter_times :: "('w::len word Counter_call \<times> int64) list \<Rightarrow> Counter \<Rightarrow> int64 list" where
  "Counter_times [] c = []"
| "Counter_times ((call, now) # calls) c =
     (let c' = Counter_do call now c;
          (t, c'') = Counter_getLastWriteTime c'
      in t # Counter_times calls c'')"

text \<open>The calls whose body stores the clock into \<^verbatim>\<open>lastWriteTime\<close>.\<close>

fun stores_time :: "'i Counter_call \<Rightarrow> bool" where
  "stores_time Call_Dec = True"
| "stores_time (Call_Add k) = True"
| "stores_time (Call_AddInt64 k) = True"
| "stores_time (Call_Set v) = True"
| "stores_time Call_Inc = False"
| "stores_time Call_Get = False"

text \<open>Go's \<^verbatim>\<open><=\<close> on \<^verbatim>\<open>int64\<close> compares the signed values.\<close>

definition int64_le :: "int64 \<Rightarrow> int64 \<Rightarrow> bool" where
  "int64_le s t = (sint s \<le> sint t)"

subsection \<open>Calls from several threads\<close>

text \<open>
  A method body is a sequence of atomic accesses, and between two of them any other
  thread may run. \<^verbatim>\<open>I_StoreNow\<close> is
  \<^verbatim>\<open>atomic.StoreInt64(&c.lastWriteTime, time.Now().Unix())\<close>: the value stored is the
  clock reading the thread took for it.
\<close>

datatype instr =
    I_AddUint64 uint64
  | I_StoreUint64 uint64
  | I_LoadUint64
  | I_StoreNow

fun Counter_body :: "'w::len word Counter_call \<Rightarrow> instr list" where
  "Counter_body Call_Inc = [I_AddUint64 1]"
| "Counter_body Call_Dec = [I_AddUint64 (NOT 0), I_StoreNow]"
| "Counter_body (Call_Add k) = [I_AddUint64 (to_uint64 k), I_StoreNow]"
| "Counter_body (Call_AddInt64 k) = [I_AddUint64 (to_uint64 k), I_StoreNow]"
| "Counter_body Call_Get = [I_LoadUint64]"
| "Counter_body (Call_Set v) = [I_StoreUint64 v, I_StoreNow]"

fun exec_instr :: "instr \<Rightarrow> int64 \<Rightarrow> Counter \<Rightarrow> Counter" where
  "exec_instr (I_AddUint64 delta) now c = AddUint64_n delta c"
| "exec_instr (I_StoreUint64 v) now c = StoreUint64_n v c"
| "exec_instr I_LoadUint64 now c = c"
| "exec_instr I_StoreNow now c = StoreInt64_lastWriteTime now c"

text \<open>What is left for a thread to execute, given the calls it makes.\<close>

definition thread_code :: "'w::len word Counter_call list \<Rightarrow> instr list" where
  "thread_code calls = concat (map Counter_body calls)"

text \<open>
  The counter and, per thread, the accesses it has not executed yet. A schedule names,
  step by step, the thread that executes its next access and the clock reading that
  thread holds. A step of a thread that does not exist or that has finished is not a
  step of the program: the schedule is rejected (\<open>None\<close>).
\<close>

type_synonym config = "Counter \<times> instr list list"

fun sched_step :: "nat \<times> int64 \<Rightarrow> config \<Rightarrow> config option" where
  "sched_step (i, now) (c, ts) =
     (if i < length ts then
        (case ts ! i of
           [] \<Rightarrow> None
         | ins # rest \<Rightarrow> Some (exec_instr ins now c, ts[i := rest]))
      else None)"

fun run_schedule :: "(nat \<times> int64) list \<Rightarrow> config \<Rightarrow> config option" where
  "run_schedule [] cfg = Some cfg"
| "run_schedule (s # sched) cfg =
     (case sched_step s cfg of
        None \<Rightarrow> None
      | Some cfg' \<Rightarrow> run_schedule sched cfg')"

definition finished :: "instr list list \<Rightarrow> bool" where
  "finished ts = list_all (\<lambda>t. t = []) ts"

text \<open>The calls that add to the value: \<^verbatim>\<open>Inc\<close>, \<^verbatim>\<open>Dec\<close>, \<^verbatim>\<open>Add\<close>, \<^verbatim>\<open>AddInt64\<close>.\<close>

fun adds :: "'i Counter_call \<Rightarrow> bool" where
  "adds Call_Inc = True"
| "adds Call_Dec = True"
| "adds (Call_Add k) = True"
| "adds (Call_AddInt64 k) = True"
| "adds Call_Get = False"
| "adds (Call_Set v) = False"

text \<open>
  The signed delta of a call, as an integer: \<open>+1\<close> for \<^verbatim>\<open>Inc\<close>, \<open>-1\<close> for \<^verbatim>\<open>Dec\<close>,
  the argument for \<^verbatim>\<open>Add\<close> and \<^verbatim>\<open>AddInt64\<close>.
\<close>

fun signed_delta :: "'w::len word Counter_call \<Rightarrow> int" where
  "signed_delta Call_Inc = 1"
| "signed_delta Call_Dec = - 1"
| "signed_delta (Call_Add k) = sint k"
| "signed_delta (Call_AddInt64 k) = sint k"
| "signed_delta Call_Get = 0"
| "signed_delta (Call_Set v) = 0"

section \<open>floatcounter.go: the float counter\<close>

text \<open>
  A \<^verbatim>\<open>float64\<close> is its IEEE-754 bit pattern. The source adds, subtracts and prints
  floats with the language's arithmetic and with \<^verbatim>\<open>fmt\<close>'s verb \<^verbatim>\<open>%g\<close>; these are
  parameters of the model, collected in one record.
\<close>

type_synonym float64 = "64 word"

record float64_ops =
  f64_add :: "float64 \<Rightarrow> float64 \<Rightarrow> float64"
  f64_sub :: "float64 \<Rightarrow> float64 \<Rightarrow> float64"
  f64_fmt_g :: "float64 \<Rightarrow> string"

text \<open>
  \<^verbatim>\<open>type FloatCounter struct { mu sync.Mutex; n float64; lastWriteTime int64 }\<close>.
  The mutex is held or free. \<^verbatim>\<open>Lock\<close> on a held mutex does not return and
  \<^verbatim>\<open>Unlock\<close> on a free one is a fatal error; both are \<open>None\<close>.
\<close>

record FloatCounter =
  fc_mu :: bool
  fc_n :: float64
  fc_lastWriteTime :: int64

definition Lock :: "FloatCounter \<Rightarrow> FloatCounter option" where
  "Lock fc = (if fc_mu fc then None else Some (fc\<lparr>fc_mu := True\<rparr>))"

definition Unlock :: "FloatCounter \<Rightarrow> FloatCounter option" where
  "Unlock fc = (if fc_mu fc then Some (fc\<lparr>fc_mu := False\<rparr>) else None)"

definition FloatCounter_Add ::
  "float64_ops \<Rightarrow> float64 \<Rightarrow> int64 \<Rightarrow> FloatCounter \<Rightarrow> FloatCounter option" where
  "FloatCounter_Add ops x now fc = do {
     fc1 \<leftarrow> Lock fc;
     let fc2 = fc1\<lparr>fc_n := f64_add ops (fc_n fc1) x\<rparr>;
     let fc3 = fc2\<lparr>fc_lastWriteTime := now\<rparr>;
     Unlock fc3 }"

definition FloatCounter_Sub ::
  "float64_ops \<Rightarrow> float64 \<Rightarrow> int64 \<Rightarrow> FloatCounter \<Rightarrow> FloatCounter option" where
  "FloatCounter_Sub ops x now fc = do {
     fc1 \<leftarrow> Lock fc;
     let fc2 = fc1\<lparr>fc_n := f64_sub ops (fc_n fc1) x\<rparr>;
     let fc3 = fc2\<lparr>fc_lastWriteTime := now\<rparr>;
     Unlock fc3 }"

definition FloatCounter_Get ::
  "int64 \<Rightarrow> FloatCounter \<Rightarrow> (float64 \<times> FloatCounter) option" where
  "FloatCounter_Get now fc = do {
     fc1 \<leftarrow> Lock fc;
     let v = fc_n fc1;
     let fc2 = fc1\<lparr>fc_lastWriteTime := now\<rparr>;
     fc3 \<leftarrow> Unlock fc2;
     Some (v, fc3) }"

definition FloatCounter_Set ::
  "float64 \<Rightarrow> int64 \<Rightarrow> FloatCounter \<Rightarrow> FloatCounter option" where
  "FloatCounter_Set x now fc = do {
     fc1 \<leftarrow> Lock fc;
     let fc2 = fc1\<lparr>fc_n := x\<rparr>;
     let fc3 = fc2\<lparr>fc_lastWriteTime := now\<rparr>;
     Unlock fc3 }"

text \<open>\<^verbatim>\<open>fmt.Fprintf(w, "%s %g\n", prefix, v)\<close>\<close>

definition Fprintf_s_g :: "float64_ops \<Rightarrow> Writer \<Rightarrow> string \<Rightarrow> float64 \<Rightarrow> Writer" where
  "Fprintf_s_g ops w prefix v = w @ prefix @ '' '' @ f64_fmt_g ops v @ ''\<newline>''"

definition FloatCounter_marshalTo ::
  "float64_ops \<Rightarrow> string \<Rightarrow> Writer \<Rightarrow> int64 \<Rightarrow> FloatCounter \<Rightarrow> (Writer \<times> FloatCounter) option" where
  "FloatCounter_marshalTo ops prefix w now fc = do {
     (v, fc1) \<leftarrow> FloatCounter_Get now fc;
     Some (Fprintf_s_g ops w prefix v, fc1) }"

text \<open>\<^verbatim>\<open>getLastWriteTime\<close> loads the field atomically and does not take the mutex.\<close>

definition FloatCounter_getLastWriteTime :: "FloatCounter \<Rightarrow> int64 \<times> FloatCounter" where
  "FloatCounter_getLastWriteTime fc = (fc_lastWriteTime fc, fc)"

definition FloatCounter_metricType :: "FloatCounter \<Rightarrow> string" where
  "FloatCounter_metricType fc = ''counter''"

datatype FloatCounter_call =
    FCall_Add float64
  | FCall_Sub float64
  | FCall_Get
  | FCall_Set float64

fun FloatCounter_do ::
  "float64_ops \<Rightarrow> FloatCounter_call \<Rightarrow> int64 \<Rightarrow> FloatCounter \<Rightarrow> FloatCounter option" where
  "FloatCounter_do ops (FCall_Add x) now fc = FloatCounter_Add ops x now fc"
| "FloatCounter_do ops (FCall_Sub x) now fc = FloatCounter_Sub ops x now fc"
| "FloatCounter_do ops FCall_Get now fc = map_option snd (FloatCounter_Get now fc)"
| "FloatCounter_do ops (FCall_Set x) now fc = FloatCounter_Set x now fc"

text \<open>
  One thread makes the calls in order and asks \<^verbatim>\<open>getLastWriteTime\<close> after each;
  \<open>None\<close> when a call does not return.
\<close>

fun FloatCounter_times ::
  "float64_ops \<Rightarrow> (FloatCounter_call \<times> int64) list \<Rightarrow> FloatCounter \<Rightarrow> int64 list option" where
  "FloatCounter_times ops [] fc = Some []"
| "FloatCounter_times ops ((call, now) # calls) fc = do {
     fc1 \<leftarrow> FloatCounter_do ops call now fc;
     let (t, fc2) = FloatCounter_getLastWriteTime fc1;
     ts \<leftarrow> FloatCounter_times ops calls fc2;
     Some (t # ts) }"

lemmas FloatCounter_defs =
  FloatCounter_Add_def FloatCounter_Sub_def FloatCounter_Get_def FloatCounter_Set_def
  FloatCounter_getLastWriteTime_def Lock_def Unlock_def

section \<open>Notions used to state the properties\<close>

subsection \<open>Reading the output back\<close>

text \<open>
  What a reader of the exposition text does with the digits \<^verbatim>\<open>%d\<close> printed: the
  value of a string of decimal digits, most significant first.
\<close>

definition digit_value :: "char \<Rightarrow> nat" where
  "digit_value ch = of_char ch - 48"

definition read_decimal :: "string \<Rightarrow> nat" where
  "read_decimal s = foldl (\<lambda>a ch. 10 * a + digit_value ch) 0 s"

subsection \<open>What the threads have yet to add\<close>

fun instr_delta :: "instr \<Rightarrow> uint64" where
  "instr_delta (I_AddUint64 delta) = delta"
| "instr_delta (I_StoreUint64 v) = 0"
| "instr_delta I_LoadUint64 = 0"
| "instr_delta I_StoreNow = 0"

definition pending :: "instr list list \<Rightarrow> uint64" where
  "pending ts = sum_list (map (\<lambda>t. sum_list (map instr_delta t)) ts)"

fun overwrites :: "instr \<Rightarrow> bool" where
  "overwrites (I_StoreUint64 v) = True"
| "overwrites (I_AddUint64 delta) = False"
| "overwrites I_LoadUint64 = False"
| "overwrites I_StoreNow = False"

definition add_only :: "instr list list \<Rightarrow> bool" where
  "add_only ts = list_all (list_all (\<lambda>ins. \<not> overwrites ins)) ts"

section \<open>Shared facts\<close>

lemma uint_add_word_of_int:
  "uint (a + word_of_int i :: 64 word) = (uint a + i) mod 2 ^ 64"
  by (simp add: uint_word_ariths uint_word_of_int take_bit_eq_mod mod_simps)

lemma uint_add_to_uint64:
  "uint (a + to_uint64 k) = (uint a + sint k) mod 2 ^ 64"
  using uint_add_word_of_int [of a "sint k"] by (simp add: to_uint64_def)

lemma FloatCounter_Get_free:
  "\<not> fc_mu fc \<Longrightarrow> FloatCounter_Get now fc = Some (fc_n fc, fc\<lparr>fc_lastWriteTime := now\<rparr>)"
  by (simp add: FloatCounter_defs)

lemma FloatCounter_Set_free:
  "\<not> fc_mu fc \<Longrightarrow>
   FloatCounter_Set x now fc = Some (fc\<lparr>fc_n := x, fc_lastWriteTime := now\<rparr>)"
  by (simp add: FloatCounter_defs)

lemma FloatCounter_Add_free:
  "\<not> fc_mu fc \<Longrightarrow>
   FloatCounter_Add ops x now fc =
     Some (fc\<lparr>fc_n := f64_add ops (fc_n fc) x, fc_lastWriteTime := now\<rparr>)"
  by (simp add: FloatCounter_defs)

lemma FloatCounter_Sub_free:
  "\<not> fc_mu fc \<Longrightarrow>
   FloatCounter_Sub ops x now fc =
     Some (fc\<lparr>fc_n := f64_sub ops (fc_n fc) x, fc_lastWriteTime := now\<rparr>)"
  by (simp add: FloatCounter_defs)

section \<open>Properties of single calls\<close>

text \<open>
  C2: \<^verbatim>\<open>Set(n)\<close> followed by \<^verbatim>\<open>Get()\<close>, with no call between them, returns \<open>n\<close>, for
  every \<^verbatim>\<open>uint64\<close> on the integer counter and for every \<^verbatim>\<open>float64\<close> (the same bit
  pattern) on the float counter, whose mutex is free when the calls are made.
\<close>

theorem Set_then_Get:
  "\<not> fc_mu fc \<Longrightarrow>
   fst (Counter_Get (Counter_Set v now c)) = v
   \<and> map_option fst (FloatCounter_Set x now fc \<bind> FloatCounter_Get now') = Some x"
proof -
  assume free: "\<not> fc_mu fc"
  have int_part: "fst (Counter_Get (Counter_Set v now c)) = v"
    by (simp add: Counter_defs atomic_defs)
  from free have "FloatCounter_Set x now fc = Some (fc\<lparr>fc_n := x, fc_lastWriteTime := now\<rparr>)"
    by (rule FloatCounter_Set_free)
  moreover from free have "\<not> fc_mu (fc\<lparr>fc_n := x, fc_lastWriteTime := now\<rparr>)"
    by simp
  ultimately have "map_option fst (FloatCounter_Set x now fc \<bind> FloatCounter_Get now') = Some x"
    by (simp add: FloatCounter_Get_free)
  with int_part show ?thesis by simp
qed

theorem Set_then_Get_witness:
  "\<not> fc_mu \<lparr>fc_mu = False, fc_n = 0, fc_lastWriteTime = 0\<rparr>
   \<and> fst (Counter_Get (Counter_Set 7 100 \<lparr>c_n = 3, c_lastWriteTime = 0\<rparr>)) = 7
   \<and> map_option fst
        (FloatCounter_Set 0x400C000000000000 100 \<lparr>fc_mu = False, fc_n = 0, fc_lastWriteTime = 0\<rparr>
           \<bind> FloatCounter_Get 101) = Some 0x400C000000000000"
  using Set_then_Get [of "\<lparr>fc_mu = False, fc_n = 0, fc_lastWriteTime = 0\<rparr>"
      7 100 "\<lparr>c_n = 3, c_lastWriteTime = 0\<rparr>" "0x400C000000000000" 101]
  by simp

text \<open>
  C3: \<^verbatim>\<open>Dec\<close> adds \<^verbatim>\<open>^uint64(0)\<close>, the two's complement of 1, with wrap-around: the
  value goes down by one modulo \<open>2 ^ 64\<close>, so a counter at 0 holds \<open>2 ^ 64 - 1\<close>
  afterwards. \<^verbatim>\<open>Dec\<close> is total (no error) and stores the clock reading in
  \<^verbatim>\<open>lastWriteTime\<close>.
\<close>

theorem Dec_wraps:
  "c_n (Counter_Dec now c) = c_n c + NOT 0
   \<and> c_n (Counter_Dec now c) = c_n c - 1
   \<and> (c_n c = 0 \<longrightarrow> unat (c_n (Counter_Dec now c)) = 2 ^ 64 - 1)
   \<and> c_lastWriteTime (Counter_Dec now c) = now"
  by (simp add: Counter_defs atomic_defs unsigned_minus_1_eq_mask mask_eq_exp_minus_1)

theorem Dec_wraps_witness:
  "c_n \<lparr>c_n = 0, c_lastWriteTime = 5\<rparr> = 0
   \<and> unat (c_n (Counter_Dec 9 \<lparr>c_n = 0, c_lastWriteTime = 5\<rparr>)) = 18446744073709551615
   \<and> c_lastWriteTime (Counter_Dec 9 \<lparr>c_n = 0, c_lastWriteTime = 5\<rparr>) = 9"
  using Dec_wraps [of 9 "\<lparr>c_n = 0, c_lastWriteTime = 5\<rparr>"]
  by (simp add: unsigned_minus_1_eq_mask mask_eq_exp_minus_1)

text \<open>
  C4: \<^verbatim>\<open>Get\<close> returns the current value and leaves the whole state, value and
  \<^verbatim>\<open>lastWriteTime\<close>, as it was.
\<close>

theorem Counter_Get_pure:
  "Counter_Get c = (c_n c, c)"
  by (simp add: Counter_defs atomic_defs)

text \<open>
  C5: \<^verbatim>\<open>Inc\<close> adds exactly 1 to the value modulo \<open>2 ^ 64\<close> and leaves
  \<^verbatim>\<open>lastWriteTime\<close> as it was, whereas \<^verbatim>\<open>Dec\<close>, \<^verbatim>\<open>Add\<close>, \<^verbatim>\<open>AddInt64\<close> and
  \<^verbatim>\<open>Set\<close> store the clock reading there.
\<close>

theorem Inc_no_timestamp:
  "c_n (Counter_Inc c) = c_n c + 1
   \<and> uint (c_n (Counter_Inc c)) = (uint (c_n c) + 1) mod 2 ^ 64
   \<and> c_lastWriteTime (Counter_Inc c) = c_lastWriteTime c
   \<and> c_lastWriteTime (Counter_Dec now c) = now
   \<and> c_lastWriteTime (Counter_Add k now c) = now
   \<and> c_lastWriteTime (Counter_AddInt64 k' now c) = now
   \<and> c_lastWriteTime (Counter_Set v now c) = now"
  using uint_add_word_of_int [of "c_n c" 1]
  by (simp add: Counter_defs atomic_defs)

text \<open>
  C6: \<^verbatim>\<open>Add(n)\<close> and \<^verbatim>\<open>AddInt64(n)\<close> leave the old value plus the signed \<open>n\<close>,
  modulo \<open>2 ^ 64\<close>, and store the clock reading in \<^verbatim>\<open>lastWriteTime\<close>. For \<^verbatim>\<open>Add\<close>
  this holds at every width of \<^verbatim>\<open>int\<close>.
\<close>

theorem Add_wrapping:
  "uint (c_n (Counter_Add k now c)) = (uint (c_n c) + sint k) mod 2 ^ 64
   \<and> c_lastWriteTime (Counter_Add k now c) = now
   \<and> uint (c_n (Counter_AddInt64 k' now c)) = (uint (c_n c) + sint k') mod 2 ^ 64
   \<and> c_lastWriteTime (Counter_AddInt64 k' now c) = now"
  by (simp add: Counter_defs atomic_defs uint_add_to_uint64)

text \<open>
  C7: on a float counter whose mutex is free, \<^verbatim>\<open>Get\<close> returns the value, leaves it
  unchanged and stores the clock reading in \<^verbatim>\<open>lastWriteTime\<close>; the store is made on
  the state that holds the mutex, before \<^verbatim>\<open>Unlock\<close>. \<^verbatim>\<open>marshalTo\<close> calls
  \<^verbatim>\<open>Get\<close> and so leaves the same state. The integer counter's \<^verbatim>\<open>Get\<close> leaves
  \<^verbatim>\<open>lastWriteTime\<close> alone.
\<close>

theorem FloatCounter_Get_stores_time:
  "\<not> fc_mu fc \<Longrightarrow>
   FloatCounter_Get now fc = Some (fc_n fc, fc\<lparr>fc_lastWriteTime := now\<rparr>)
   \<and> FloatCounter_Get now fc =
       Lock fc \<bind> (\<lambda>held. Unlock (held\<lparr>fc_lastWriteTime := now\<rparr>)
               \<bind> (\<lambda>freed. Some (fc_n held, freed)))
   \<and> map_option snd (FloatCounter_marshalTo ops prefix w now fc) =
       Some (fc\<lparr>fc_lastWriteTime := now\<rparr>)
   \<and> c_lastWriteTime (snd (Counter_Get c)) = c_lastWriteTime c"
proof -
  assume free: "\<not> fc_mu fc"
  then have g: "FloatCounter_Get now fc = Some (fc_n fc, fc\<lparr>fc_lastWriteTime := now\<rparr>)"
    by (rule FloatCounter_Get_free)
  have order: "FloatCounter_Get now fc =
      Lock fc \<bind> (\<lambda>held. Unlock (held\<lparr>fc_lastWriteTime := now\<rparr>)
              \<bind> (\<lambda>freed. Some (fc_n held, freed)))"
    by (simp add: FloatCounter_Get_def)
  have m: "map_option snd (FloatCounter_marshalTo ops prefix w now fc) =
      Some (fc\<lparr>fc_lastWriteTime := now\<rparr>)"
    by (simp add: FloatCounter_marshalTo_def g)
  have i: "c_lastWriteTime (snd (Counter_Get c)) = c_lastWriteTime c"
    by (simp add: Counter_defs atomic_defs)
  from g order m i show ?thesis by blast
qed

theorem FloatCounter_Get_stores_time_witness:
  "\<not> fc_mu \<lparr>fc_mu = False, fc_n = 0x400C000000000000, fc_lastWriteTime = 5\<rparr>
   \<and> FloatCounter_Get 9 \<lparr>fc_mu = False, fc_n = 0x400C000000000000, fc_lastWriteTime = 5\<rparr> =
       Some (0x400C000000000000,
             \<lparr>fc_mu = False, fc_n = 0x400C000000000000, fc_lastWriteTime = 9\<rparr>)"
  using FloatCounter_Get_stores_time
    [of "\<lparr>fc_mu = False, fc_n = 0x400C000000000000, fc_lastWriteTime = 5\<rparr>" 9]
  by simp

text \<open>
  C10: \<^verbatim>\<open>Add(n)\<close> and \<^verbatim>\<open>AddInt64(int64(n))\<close> leave the same state, at every width
  of \<^verbatim>\<open>int\<close>.
\<close>

theorem Add_eq_AddInt64:
  "Counter_Add k now c = Counter_AddInt64 (to_int64 k) now c"
  by (simp add: Counter_defs atomic_defs to_uint64_def to_int64_def)

section \<open>The text of a marshalled counter\<close>

lemma ldigits_nth:
  "d < 10 \<Longrightarrow> digit_value (ldigits ! d) = d \<and> ldigits ! d \<in> set ldigits"
proof -
  assume "d < 10"
  then have "d \<in> {0, 1, 2, 3, 4, 5, 6, 7, 8, 9}" by auto
  then show ?thesis
    by (auto simp: ldigits_def digit_value_def)
qed

lemma read_decimal_snoc:
  "read_decimal (s @ [ch]) = 10 * read_decimal s + digit_value ch"
  by (simp add: read_decimal_def)

lemma fmt_decimal_nonempty: "fmt_decimal u \<noteq> []"
  by (subst fmt_decimal.simps) simp

lemma read_fmt_decimal: "read_decimal (fmt_decimal u) = u"
proof (induction u rule: fmt_decimal.induct)
  case (1 u)
  show ?case
  proof (cases "u < 10")
    case True
    then show ?thesis
      using ldigits_nth [of u]
      by (subst fmt_decimal.simps) (simp add: read_decimal_def)
  next
    case False
    with "1" have "read_decimal (fmt_decimal (u div 10)) = u div 10" by simp
    moreover have "digit_value (ldigits ! (u mod 10)) = u mod 10"
      using ldigits_nth [of "u mod 10"] by simp
    ultimately show ?thesis
      using False by (subst fmt_decimal.simps) (simp add: read_decimal_snoc)
  qed
qed

lemma fmt_decimal_digits: "set (fmt_decimal u) \<subseteq> set ldigits"
proof (induction u rule: fmt_decimal.induct)
  case (1 u)
  show ?case
  proof (cases "u < 10")
    case True
    then show ?thesis
      using ldigits_nth [of u] by (subst fmt_decimal.simps) simp
  next
    case False
    with "1" have "set (fmt_decimal (u div 10)) \<subseteq> set ldigits" by simp
    moreover have "ldigits ! (u mod 10) \<in> set ldigits"
      using ldigits_nth [of "u mod 10"] by simp
    ultimately show ?thesis
      using False by (subst fmt_decimal.simps) simp
  qed
qed

lemma fmt_decimal_no_leading_zero:
  "hd (fmt_decimal u) = CHR ''0'' \<Longrightarrow> u = 0"
proof (induction u rule: fmt_decimal.induct)
  case (1 u)
  show ?case
  proof (cases "u < 10")
    case True
    then have "fmt_decimal u = [ldigits ! u]" by (subst fmt_decimal.simps) simp
    with "1.prems" have "ldigits ! u = CHR ''0''" by simp
    then have "digit_value (ldigits ! u) = 0" by (simp add: digit_value_def)
    with True show ?thesis using ldigits_nth [of u] by simp
  next
    case False
    then have "fmt_decimal u = fmt_decimal (u div 10) @ [ldigits ! (u mod 10)]"
      by (subst fmt_decimal.simps) simp
    with "1.prems" have "hd (fmt_decimal (u div 10)) = CHR ''0''"
      by (simp add: fmt_decimal_nonempty)
    with "1.IH" False have "u div 10 = 0" by simp
    with False show ?thesis by simp
  qed
qed

lemma Counter_marshalTo_line:
  "Counter_marshalTo prefix w c = (w @ prefix @ '' '' @ fmt_d (c_n c) @ ''\<newline>'', c)"
  by (simp add: Counter_marshalTo_def Counter_Get_def LoadUint64_n_def Fprintf_s_d_def)

lemma FloatCounter_marshalTo_line:
  "\<not> fc_mu fc \<Longrightarrow>
   FloatCounter_marshalTo ops prefix w now fc =
     Some (w @ prefix @ '' '' @ f64_fmt_g ops (fc_n fc) @ ''\<newline>'',
           fc\<lparr>fc_lastWriteTime := now\<rparr>)"
  by (simp add: FloatCounter_marshalTo_def Fprintf_s_g_def FloatCounter_Get_free)

lemma fmt_d_0: "fmt_d 0 = ''0''"
  by (simp add: fmt_d_def fmt_decimal.simps ldigits_def)

lemma fmt_d_42: "fmt_d 42 = ''42''"
  by (simp add: fmt_d_def fmt_decimal.simps ldigits_def)

text \<open>
  C8: \<^verbatim>\<open>marshalTo\<close> appends to the writer exactly the prefix, one space, the value and
  a newline. The integer counter's value is printed as an unsigned decimal integer:
  digits only, a leading zero for 0 alone, denoting the value; 42 with the
  prefix \<^verbatim>\<open>foo\<close> gives \<^verbatim>\<open>foo 42\<close> and a newline. The float counter's value is
  printed by \<^verbatim>\<open>%g\<close>; where \<^verbatim>\<open>%g\<close> prints the float64 3.5 (bit pattern
  \<^verbatim>\<open>0x400C000000000000\<close>) as \<^verbatim>\<open>3.5\<close>, the prefix \<^verbatim>\<open>bar\<close> gives \<^verbatim>\<open>bar 3.5\<close>
  and a newline.
\<close>

theorem marshalTo_line:
  "\<not> fc_mu fc \<Longrightarrow>
   Counter_marshalTo prefix w c = (w @ prefix @ '' '' @ fmt_d (c_n c) @ ''\<newline>'', c)
   \<and> read_decimal (fmt_d (c_n c)) = unat (c_n c)
   \<and> set (fmt_d (c_n c)) \<subseteq> set ''0123456789''
   \<and> fmt_d (c_n c) \<noteq> []
   \<and> (hd (fmt_d (c_n c)) = CHR ''0'') = (c_n c = 0)
   \<and> (c_n c = 42 \<longrightarrow> Counter_marshalTo ''foo'' [] c = (''foo 42\<newline>'', c))
   \<and> FloatCounter_marshalTo ops prefix w now fc =
       Some (w @ prefix @ '' '' @ f64_fmt_g ops (fc_n fc) @ ''\<newline>'',
             fc\<lparr>fc_lastWriteTime := now\<rparr>)
   \<and> (fc_n fc = 0x400C000000000000 \<and> f64_fmt_g ops 0x400C000000000000 = ''3.5'' \<longrightarrow>
        FloatCounter_marshalTo ops ''bar'' [] now fc =
          Some (''bar 3.5\<newline>'', fc\<lparr>fc_lastWriteTime := now\<rparr>))"
proof -
  assume free: "\<not> fc_mu fc"
  have digits: "set (fmt_d (c_n c)) \<subseteq> set ''0123456789''"
    using fmt_decimal_digits [of "unat (c_n c)"] by (simp add: fmt_d_def ldigits_def)
  have zero: "(hd (fmt_d (c_n c)) = CHR ''0'') = (c_n c = 0)"
    using fmt_decimal_no_leading_zero [of "unat (c_n c)"] fmt_d_0
    by (auto simp: fmt_d_def unat_eq_0)
  have foo: "c_n c = 42 \<longrightarrow> Counter_marshalTo ''foo'' [] c = (''foo 42\<newline>'', c)"
    by (simp add: Counter_marshalTo_line fmt_d_42)
  have bar: "fc_n fc = 0x400C000000000000 \<and> f64_fmt_g ops 0x400C000000000000 = ''3.5'' \<longrightarrow>
      FloatCounter_marshalTo ops ''bar'' [] now fc =
        Some (''bar 3.5\<newline>'', fc\<lparr>fc_lastWriteTime := now\<rparr>)"
    using free by (simp add: FloatCounter_marshalTo_line)
  show ?thesis
    using free digits zero foo bar
    by (simp add: Counter_marshalTo_line FloatCounter_marshalTo_line fmt_d_def
        read_fmt_decimal fmt_decimal_nonempty)
qed

theorem marshalTo_line_witness:
  "\<not> fc_mu \<lparr>fc_mu = False, fc_n = 0x400C000000000000, fc_lastWriteTime = 0\<rparr>
   \<and> c_n \<lparr>c_n = 42, c_lastWriteTime = 0\<rparr> = 42
   \<and> fc_n \<lparr>fc_mu = False, fc_n = 0x400C000000000000, fc_lastWriteTime = 0\<rparr> =
       0x400C000000000000
   \<and> f64_fmt_g \<lparr>f64_add = (\<lambda>a b. a), f64_sub = (\<lambda>a b. a), f64_fmt_g = (\<lambda>v. ''3.5'')\<rparr>
        0x400C000000000000 = ''3.5''
   \<and> Counter_marshalTo ''foo'' [] \<lparr>c_n = 42, c_lastWriteTime = 0\<rparr> =
       (''foo 42\<newline>'', \<lparr>c_n = 42, c_lastWriteTime = 0\<rparr>)
   \<and> FloatCounter_marshalTo
        \<lparr>f64_add = (\<lambda>a b. a), f64_sub = (\<lambda>a b. a), f64_fmt_g = (\<lambda>v. ''3.5'')\<rparr>
        ''bar'' [] 9 \<lparr>fc_mu = False, fc_n = 0x400C000000000000, fc_lastWriteTime = 0\<rparr> =
       Some (''bar 3.5\<newline>'',
             \<lparr>fc_mu = False, fc_n = 0x400C000000000000, fc_lastWriteTime = 9\<rparr>)"
  using marshalTo_line
    [of "\<lparr>fc_mu = False, fc_n = 0x400C000000000000, fc_lastWriteTime = 0\<rparr>"
        "''foo''" "[]" "\<lparr>c_n = 42, c_lastWriteTime = 0\<rparr>"
        "\<lparr>f64_add = (\<lambda>a b. a), f64_sub = (\<lambda>a b. a), f64_fmt_g = (\<lambda>v. ''3.5'')\<rparr>" 9]
  by (simp add: fmt_d_42)

section \<open>Timestamps along a thread's calls\<close>

lemma Counter_do_time:
  "stores_time call \<Longrightarrow> c_lastWriteTime (Counter_do call now c) = now"
  by (cases call) (simp_all add: Counter_defs atomic_defs)

lemma Counter_times_clock:
  "list_all (\<lambda>(call, now). stores_time call) calls \<Longrightarrow>
   Counter_times calls c = map snd calls"
proof (induction calls arbitrary: c)
  case Nil
  show ?case by simp
next
  case (Cons p calls)
  obtain call now where p: "p = (call, now)" by (cases p)
  with Cons.prems have st: "stores_time call"
    and rest: "list_all (\<lambda>(call, now). stores_time call) calls"
    by simp_all
  from st have "c_lastWriteTime (Counter_do call now c) = now"
    by (rule Counter_do_time)
  with Cons.IH [OF rest] p show ?case
    by (simp add: Counter_getLastWriteTime_def LoadInt64_lastWriteTime_def)
qed

lemma FloatCounter_do_free:
  "\<not> fc_mu fc \<Longrightarrow>
   \<exists>fc'. FloatCounter_do ops call now fc = Some fc'
     \<and> \<not> fc_mu fc' \<and> fc_lastWriteTime fc' = now"
  by (cases call)
    (simp_all add: FloatCounter_Add_free FloatCounter_Sub_free FloatCounter_Get_free
      FloatCounter_Set_free)

lemma FloatCounter_times_clock:
  "\<not> fc_mu fc \<Longrightarrow> FloatCounter_times ops calls fc = Some (map snd calls)"
proof (induction calls arbitrary: fc)
  case Nil
  show ?case by simp
next
  case (Cons p calls)
  obtain call now where p: "p = (call, now)" by (cases p)
  from Cons.prems obtain fc' where
    step: "FloatCounter_do ops call now fc = Some fc'"
    and free: "\<not> fc_mu fc'" and t: "fc_lastWriteTime fc' = now"
    using FloatCounter_do_free [of fc ops call now] by blast
  from Cons.IH [OF free] step t p show ?case
    by (simp add: FloatCounter_getLastWriteTime_def)
qed

text \<open>
  C9: one thread makes calls that store the time (\<^verbatim>\<open>Dec\<close>, \<^verbatim>\<open>Add\<close>, \<^verbatim>\<open>AddInt64\<close>,
  \<^verbatim>\<open>Set\<close> on the integer counter; \<^verbatim>\<open>Add\<close>, \<^verbatim>\<open>Sub\<close>, \<^verbatim>\<open>Get\<close>, \<^verbatim>\<open>Set\<close> on the
  float counter, its mutex free at the start) and reads \<^verbatim>\<open>getLastWriteTime\<close> after
  each. When the clock readings of the calls are non-decreasing, every call returns and
  the values read are non-decreasing. A reading taken before the first call fits in
  front of them when the timestamp it finds is not later than the clock.
\<close>

theorem getLastWriteTime_nondecreasing:
  assumes "sorted_wrt int64_le (map snd calls)"
    and "list_all (\<lambda>(call, now). stores_time call) calls"
    and "sorted_wrt int64_le (map snd fcalls)"
    and "\<not> fc_mu fc"
  shows "sorted_wrt int64_le (Counter_times calls c)
    \<and> (\<exists>ts. FloatCounter_times ops fcalls fc = Some ts \<and> sorted_wrt int64_le ts)
    \<and> (list_all (int64_le (c_lastWriteTime c)) (map snd calls) \<longrightarrow>
         sorted_wrt int64_le (fst (Counter_getLastWriteTime c) # Counter_times calls c))
    \<and> (list_all (int64_le (fc_lastWriteTime fc)) (map snd fcalls) \<longrightarrow>
         (\<exists>ts. FloatCounter_times ops fcalls fc = Some ts
            \<and> sorted_wrt int64_le (fst (FloatCounter_getLastWriteTime fc) # ts)))"
  using assms
  by (simp add: Counter_times_clock FloatCounter_times_clock list_all_iff
      Counter_getLastWriteTime_def LoadInt64_lastWriteTime_def FloatCounter_getLastWriteTime_def)

theorem getLastWriteTime_nondecreasing_witness:
  "sorted_wrt int64_le (map snd [(Call_Dec :: 64 word Counter_call, 5), (Call_Add 3, 5), (Call_Set 9, 8)])
   \<and> list_all (\<lambda>(call, now). stores_time call)
        [(Call_Dec :: 64 word Counter_call, 5), (Call_Add 3, 5), (Call_Set 9, 8)]
   \<and> sorted_wrt int64_le (map snd [(FCall_Get, 2), (FCall_Set 0x400C000000000000, 4)])
   \<and> \<not> fc_mu \<lparr>fc_mu = False, fc_n = 0, fc_lastWriteTime = 0\<rparr>
   \<and> list_all (int64_le (c_lastWriteTime \<lparr>c_n = 0, c_lastWriteTime = 0\<rparr>))
        (map snd [(Call_Dec :: 64 word Counter_call, 5), (Call_Add 3, 5), (Call_Set 9, 8)])
   \<and> list_all (int64_le (fc_lastWriteTime \<lparr>fc_mu = False, fc_n = 0, fc_lastWriteTime = 0\<rparr>))
        (map snd [(FCall_Get, 2), (FCall_Set 0x400C000000000000, 4)])
   \<and> sorted_wrt int64_le
        (fst (Counter_getLastWriteTime \<lparr>c_n = 0, c_lastWriteTime = 0\<rparr>) #
         Counter_times [(Call_Dec :: 64 word Counter_call, 5), (Call_Add 3, 5), (Call_Set 9, 8)]
           \<lparr>c_n = 0, c_lastWriteTime = 0\<rparr>)
   \<and> (\<exists>ts. FloatCounter_times
          \<lparr>f64_add = (\<lambda>a b. a), f64_sub = (\<lambda>a b. a), f64_fmt_g = (\<lambda>v. [])\<rparr>
          [(FCall_Get, 2), (FCall_Set 0x400C000000000000, 4)]
          \<lparr>fc_mu = False, fc_n = 0, fc_lastWriteTime = 0\<rparr> = Some ts
        \<and> sorted_wrt int64_le
            (fst (FloatCounter_getLastWriteTime \<lparr>fc_mu = False, fc_n = 0, fc_lastWriteTime = 0\<rparr>)
             # ts))"
proof -
  have h1: "sorted_wrt int64_le
      (map snd [(Call_Dec :: 64 word Counter_call, 5), (Call_Add 3, 5), (Call_Set 9, 8)])"
    by (simp add: int64_le_def)
  have h2: "list_all (\<lambda>(call, now). stores_time call)
      [(Call_Dec :: 64 word Counter_call, 5), (Call_Add 3, 5), (Call_Set 9, 8)]"
    by simp
  have h3: "sorted_wrt int64_le (map snd [(FCall_Get, 2), (FCall_Set 0x400C000000000000, 4)])"
    by (simp add: int64_le_def)
  have h4: "\<not> fc_mu \<lparr>fc_mu = False, fc_n = 0, fc_lastWriteTime = 0\<rparr>"
    by simp
  have h5: "list_all (int64_le (c_lastWriteTime \<lparr>c_n = 0, c_lastWriteTime = 0\<rparr>))
      (map snd [(Call_Dec :: 64 word Counter_call, 5), (Call_Add 3, 5), (Call_Set 9, 8)])"
    by (simp add: int64_le_def)
  have h6: "list_all (int64_le (fc_lastWriteTime \<lparr>fc_mu = False, fc_n = 0, fc_lastWriteTime = 0\<rparr>))
      (map snd [(FCall_Get, 2), (FCall_Set 0x400C000000000000, 4)])"
    by (simp add: int64_le_def)
  from h1 h2 h3 h4 h5 h6 getLastWriteTime_nondecreasing [OF h1 h2 h3 h4] show ?thesis
    by blast
qed

section \<open>Calls from several threads\<close>

text \<open>A body that runs without another thread in between is the method itself.\<close>

lemma body_is_method:
  "foldl (\<lambda>c ins. exec_instr ins now c) c (Counter_body call) = Counter_do call now c"
  by (cases call) (simp_all add: Counter_defs atomic_defs)

lemma pending_update:
  "i < length ts \<Longrightarrow> ts ! i = ins # rest \<Longrightarrow>
   pending (ts[i := rest]) + instr_delta ins = pending ts"
proof (induction ts arbitrary: i)
  case Nil
  then show ?case by simp
next
  case (Cons t ts)
  show ?case
  proof (cases i)
    case 0
    with Cons.prems show ?thesis by (simp add: pending_def)
  next
    case (Suc j)
    with Cons.prems have "pending (ts[j := rest]) + instr_delta ins = pending ts"
      by (intro Cons.IH) simp_all
    with Suc show ?thesis by (simp add: pending_def add.assoc)
  qed
qed

lemma add_only_update:
  "add_only ts \<Longrightarrow> i < length ts \<Longrightarrow> ts ! i = ins # rest \<Longrightarrow>
   add_only (ts[i := rest]) \<and> \<not> overwrites ins"
proof (induction ts arbitrary: i)
  case Nil
  then show ?case by simp
next
  case (Cons t ts)
  show ?case
  proof (cases i)
    case 0
    with Cons.prems show ?thesis by (simp add: add_only_def)
  next
    case (Suc j)
    with Cons.prems have "add_only (ts[j := rest]) \<and> \<not> overwrites ins"
      by (intro Cons.IH) (simp_all add: add_only_def)
    with Suc Cons.prems show ?thesis by (simp add: add_only_def)
  qed
qed

lemma exec_instr_value:
  "\<not> overwrites ins \<Longrightarrow> c_n (exec_instr ins now c) = c_n c + instr_delta ins"
  by (cases ins) (simp_all add: atomic_defs)

lemma sched_step_invariant:
  assumes "sched_step s (c, ts) = Some (c', ts')" and "add_only ts"
  shows "add_only ts' \<and> c_n c' + pending ts' = c_n c + pending ts"
proof -
  obtain i now where s: "s = (i, now)" by (cases s)
  from assms(1) s have i: "i < length ts"
    by (simp split: if_splits)
  with assms(1) s obtain ins rest where
    nth: "ts ! i = ins # rest" and c': "c' = exec_instr ins now c" and ts': "ts' = ts[i := rest]"
    by (auto split: list.splits)
  from add_only_update [OF assms(2) i nth]
  have ok: "add_only (ts[i := rest])" and ins: "\<not> overwrites ins" by simp_all
  from pending_update [OF i nth]
  have "pending ts = pending (ts[i := rest]) + instr_delta ins" by simp
  with ok exec_instr_value [OF ins, of now c] c' ts' show ?thesis
    by (simp add: add.commute add.left_commute)
qed

lemma run_schedule_invariant:
  "run_schedule sched (c, ts) = Some (c', ts') \<Longrightarrow> add_only ts \<Longrightarrow>
   c_n c' + pending ts' = c_n c + pending ts"
proof (induction sched arbitrary: c ts)
  case Nil
  then show ?case by simp
next
  case (Cons s sched)
  from Cons.prems(1) obtain c1 ts1 where
    step: "sched_step s (c, ts) = Some (c1, ts1)"
    and run: "run_schedule sched (c1, ts1) = Some (c', ts')"
    by (auto split: option.splits)
  from sched_step_invariant [OF step Cons.prems(2)]
  have ok: "add_only ts1" and eq: "c_n c1 + pending ts1 = c_n c + pending ts"
    by simp_all
  from Cons.IH [OF run ok] eq show ?case by simp
qed

lemma finished_pending: "finished ts \<Longrightarrow> pending ts = 0"
  by (induction ts) (simp_all add: finished_def pending_def)

lemma body_delta:
  "adds call \<Longrightarrow>
   sum_list (map instr_delta (Counter_body call)) = word_of_int (signed_delta call)
   \<and> list_all (\<lambda>ins. \<not> overwrites ins) (Counter_body call)"
  by (cases call) (simp_all add: to_uint64_def)

lemma thread_code_delta:
  "list_all adds calls \<Longrightarrow>
   sum_list (map instr_delta (thread_code calls)) =
     word_of_int (sum_list (map signed_delta calls))
   \<and> list_all (\<lambda>ins. \<not> overwrites ins) (thread_code calls)"
proof (induction calls)
  case Nil
  show ?case by (simp add: thread_code_def)
next
  case (Cons call calls)
  then have "adds call" and "list_all adds calls" by simp_all
  with Cons.IH body_delta [of call] show ?case
    by (simp add: thread_code_def)
qed

lemma program_delta:
  "list_all (list_all adds) progs \<Longrightarrow>
   pending (map thread_code progs) = word_of_int (sum_list (map signed_delta (concat progs)))
   \<and> add_only (map thread_code progs)"
proof (induction progs)
  case Nil
  show ?case by (simp add: pending_def add_only_def)
next
  case (Cons calls progs)
  then have "list_all adds calls" and "list_all (list_all adds) progs" by simp_all
  with Cons.IH thread_code_delta [of calls]
  have "pending (map thread_code progs) =
          word_of_int (sum_list (map signed_delta (concat progs)))"
    and "add_only (map thread_code progs)"
    and "sum_list (map instr_delta (thread_code calls)) =
          word_of_int (sum_list (map signed_delta calls))"
    and "list_all (\<lambda>ins. \<not> overwrites ins) (thread_code calls)"
    by simp_all
  then show ?case
    by (simp add: pending_def add_only_def)
qed

lemma remaining_decreases:
  "i < length ts \<Longrightarrow> ts ! i = ins # rest \<Longrightarrow>
   sum_list (map length (ts[i := rest])) < sum_list (map length ts)"
proof (induction ts arbitrary: i)
  case Nil
  then show ?case by simp
next
  case (Cons t ts)
  show ?case
  proof (cases i)
    case 0
    with Cons.prems show ?thesis by simp
  next
    case (Suc j)
    with Cons.prems have "sum_list (map length (ts[j := rest])) < sum_list (map length ts)"
      by (intro Cons.IH) simp_all
    with Suc show ?thesis by simp
  qed
qed

text \<open>Every program can run to its end: some schedule finishes all threads.\<close>

lemma some_schedule_finishes:
  "\<exists>sched c' ts'. run_schedule sched (c, ts) = Some (c', ts') \<and> finished ts'"
proof (induction "sum_list (map length ts)" arbitrary: c ts rule: less_induct)
  case less
  show ?case
  proof (cases "finished ts")
    case True
    then have "run_schedule [] (c, ts) = Some (c, ts) \<and> finished ts" by simp
    then show ?thesis by blast
  next
    case False
    then obtain t where "t \<in> set ts" and "t \<noteq> []"
      by (auto simp: finished_def list_all_iff)
    then obtain i where i: "i < length ts" and "ts ! i \<noteq> []"
      by (auto simp: in_set_conv_nth)
    then obtain ins rest where nth: "ts ! i = ins # rest"
      by (cases "ts ! i") auto
    have "sum_list (map length (ts[i := rest])) < sum_list (map length ts)"
      using i nth by (rule remaining_decreases)
    from less [OF this, of "exec_instr ins 0 c"] obtain sched c' ts' where
      "run_schedule sched (exec_instr ins 0 c, ts[i := rest]) = Some (c', ts')"
      and fin: "finished ts'"
      by blast
    with i nth have "run_schedule ((i, 0) # sched) (c, ts) = Some (c', ts')"
      by simp
    with fin show ?thesis by blast
  qed
qed

text \<open>
  C1: \<open>N\<close> threads (\<open>N\<close> the length of \<open>progs\<close>) each make a finite sequence of
  \<^verbatim>\<open>Inc\<close>, \<^verbatim>\<open>Dec\<close>, \<^verbatim>\<open>Add\<close> and \<^verbatim>\<open>AddInt64\<close> calls on one counter. Whatever the
  schedule that interleaves their atomic accesses, once every thread has finished
  \<^verbatim>\<open>Get\<close> returns the value the counter started with plus the sum of the signed
  deltas of all calls, modulo \<open>2 ^ 64\<close>; on a counter that started at 0 this is the
  sum of the deltas modulo \<open>2 ^ 64\<close>.
\<close>

theorem concurrent_adds_sum:
  assumes "list_all (list_all adds) progs"
    and "run_schedule sched (c0, map thread_code progs) = Some (c', ts')"
    and "finished ts'"
  shows "uint (fst (Counter_Get c')) =
           (uint (c_n c0) + sum_list (map signed_delta (concat progs))) mod 2 ^ 64
    \<and> (c_n c0 = 0 \<longrightarrow>
         uint (fst (Counter_Get c')) = sum_list (map signed_delta (concat progs)) mod 2 ^ 64)"
proof -
  from program_delta [OF assms(1)]
  have start: "pending (map thread_code progs) =
      word_of_int (sum_list (map signed_delta (concat progs)))"
    and ok: "add_only (map thread_code progs)"
    by simp_all
  from run_schedule_invariant [OF assms(2) ok] finished_pending [OF assms(3)] start
  have "c_n c' = c_n c0 + word_of_int (sum_list (map signed_delta (concat progs)))"
    by simp
  then have "uint (c_n c') =
      (uint (c_n c0) + sum_list (map signed_delta (concat progs))) mod 2 ^ 64"
    by (simp only: uint_add_word_of_int)
  then show ?thesis
    by (simp add: Counter_Get_def LoadUint64_n_def)
qed

theorem concurrent_adds_sum_witness:
  "list_all (list_all adds) [[Call_Inc, Call_Add (- 3 :: 64 word)], [Call_Dec, Call_AddInt64 10]]
   \<and> c_n \<lparr>c_n = 0, c_lastWriteTime = 0\<rparr> = 0
   \<and> run_schedule [(1, 7), (0, 7), (1, 7), (0, 8), (1, 8), (1, 9), (0, 9)]
       (\<lparr>c_n = 0, c_lastWriteTime = 0\<rparr>,
        map thread_code [[Call_Inc, Call_Add (- 3 :: 64 word)], [Call_Dec, Call_AddInt64 10]]) =
       Some (\<lparr>c_n = 7, c_lastWriteTime = 9\<rparr>, [[], []])
   \<and> finished [[], []]
   \<and> uint (fst (Counter_Get \<lparr>c_n = 7, c_lastWriteTime = 9\<rparr>)) =
       sum_list (map signed_delta
         (concat [[Call_Inc, Call_Add (- 3 :: 64 word)], [Call_Dec, Call_AddInt64 10]])) mod 2 ^ 64"
proof -
  have h1: "list_all (list_all adds)
      [[Call_Inc, Call_Add (- 3 :: 64 word)], [Call_Dec, Call_AddInt64 10]]"
    by simp
  have h2: "run_schedule [(1, 7), (0, 7), (1, 7), (0, 8), (1, 8), (1, 9), (0, 9)]
       (\<lparr>c_n = 0, c_lastWriteTime = 0\<rparr>,
        map thread_code [[Call_Inc, Call_Add (- 3 :: 64 word)], [Call_Dec, Call_AddInt64 10]]) =
       Some (\<lparr>c_n = 7, c_lastWriteTime = 9\<rparr>, [[], []])"
    by (simp add: thread_code_def atomic_defs to_uint64_def)
  have h3: "finished [[], []]"
    by (simp add: finished_def)
  from h1 h2 h3 concurrent_adds_sum [OF h1 h2 h3] show ?thesis
    by simp
qed

end
